theory Spec2Isabelle
  imports Complex_Main
begin

section \<open>Daylight lookup table: a shallow embedding of Lookup_Table_for_Day_Light.py\<close>

text \<open>
  The program computes with IEEE binary64 numbers through numpy.  The embedding idealises
  every finite float as a real number and every numpy function as its exact real counterpart
  (\<open>np.sin\<close> is \<^term>\<open>sin\<close>, \<open>np.pi\<close> is \<^term>\<open>pi\<close>), without their rounding.  The one place
  where the special values of IEEE arithmetic decide the control flow, the quotient
  \<open>cos_H0\<close>, keeps them: a division by zero yields an infinity or a NaN, as numpy does,
  and never raises.  Two computations are kept to the bit, because their rounding decides the
  result: the conversion of the latitude to radians and the product of fmt_hours.
\<close>

subsection \<open>Errors raised by the Python runtime\<close>


subsection \<open>Calendar dates (datetime.date)\<close>

record date =
  year :: int
  month :: int
  day :: int

definition is_leap :: "int \<Rightarrow> bool" where
  "is_leap y = (y mod 4 = 0 \<and> (y mod 100 \<noteq> 0 \<or> y mod 400 = 0))"

definition days_in_month :: "int \<Rightarrow> int \<Rightarrow> int" where
  "days_in_month y m =
     (if m = 2 then (if is_leap y then 29 else 28)
      else if m = 4 \<or> m = 6 \<or> m = 9 \<or> m = 11 then 30 else 31)"

definition days_before_month :: "int \<Rightarrow> int \<Rightarrow> int" where
  "days_before_month y m =
     [0, 31, 59, 90, 120, 151, 181, 212, 243, 273, 304, 334] ! nat (m - 1)
       + (if 2 < m \<and> is_leap y then 1 else 0)"

definition days_in_year :: "int \<Rightarrow> int" where
  "days_in_year y = (if is_leap y then 366 else 365)"

text \<open>The dates a \<open>datetime.date\<close> object can hold: years 1 to 9999 of the proleptic
  Gregorian calendar.\<close>

definition valid_date :: "date \<Rightarrow> bool" where
  "valid_date d =
     (1 \<le> year d \<and> year d \<le> 9999 \<and> 1 \<le> month d \<and> month d \<le> 12
      \<and> 1 \<le> day d \<and> day d \<le> days_in_month (year d) (month d))"




text \<open>The 1-based number of a date within its year, as the calendar defines it.\<close>

definition yday :: "date \<Rightarrow> int" where
  "yday d = days_before_month (year d) (month d) + day d"

subsection \<open>Decimal strings\<close>

definition digit_char :: "nat \<Rightarrow> char" where
  "digit_char k = char_of (48 + k)"

definition digit_val :: "char \<Rightarrow> nat" where
  "digit_val c = of_char c - 48"

text \<open>\<open>int(s)\<close> on a string of decimal digits.\<close>

definition py_int :: "string \<Rightarrow> int" where
  "py_int s = int (foldl (\<lambda>a c. 10 * a + digit_val c) 0 s)"

text \<open>\<open>d.strftime("%j")\<close>: the day of the year as three decimal digits, zero padded.\<close>

definition strftime_j :: "date \<Rightarrow> string" where
  "strftime_j d =
     (let n = nat (days_before_month (year d) (month d) + day d)
      in [digit_char (n div 100 mod 10), digit_char (n div 10 mod 10), digit_char (n mod 10)])"

definition day_of_year :: "date \<Rightarrow> int" where
  "day_of_year d = py_int (strftime_j d)"

subsection \<open>Binary64 rounding\<close>

text \<open>Rounding to the nearest integer, a tie to the even one.\<close>

definition rint :: "real \<Rightarrow> int" where
  "rint x =
     (let f = \<lfloor>x\<rfloor>; r = x - of_int f
      in if r < 1 / 2 then f else if 1 / 2 < r then f + 1
         else if even f then f else f + 1)"

text \<open>The binary64 number nearest to a real, a tie to the even significand: 53 significant
  bits at the exponent of the argument.  The exponent range is not modelled (no overflow, no
  subnormal numbers): the quantities rounded here stay far inside it.\<close>

definition f64 :: "real \<Rightarrow> real" where
  "f64 x =
     (if x = 0 then 0
      else (let e = \<lfloor>log 2 \<bar>x\<bar>\<rfloor>; u = 2 powi (e - 52)
            in u * of_int (rint (x / u))))"

subsection \<open>Solar declination\<close>

text \<open>Lines 43 to 54 of the source, as a function of the day number \<open>n\<close>.\<close>

definition declination_of_doy :: "int \<Rightarrow> real" where
  "declination_of_doy n =
     (let gamma = 2.0 * pi * real_of_int (n - 1) / 365.0
      in 0.006918
         - 0.399912 * cos gamma
         + 0.070257 * sin gamma
         - 0.006758 * cos (2 * gamma)
         + 0.000907 * sin (2 * gamma)
         - 0.002697 * cos (3 * gamma)
         + 0.001480 * sin (3 * gamma))"

definition solar_declination_rad :: "date \<Rightarrow> real" where
  "solar_declination_rad d = (let n = day_of_year d in declination_of_doy n)"

subsection \<open>Daylight duration\<close>

text \<open>A numpy float: a finite number, an infinity or a NaN.\<close>

datatype npfloat = Fin real | PInf | NInf | NaN

text \<open>\<open>np.deg2rad\<close> multiplies by the binary64 constant \<open>NPY_PI / 180.0\<close>, which is
  0x1.1df46a2529d39p-6, and rounds the product.  It is kept to the bit: near odd multiples
  of 90 degrees the sign of the cosine of the result, hence the classification, depends on
  it.  \<open>np.rad2deg\<close> only scales the result and is idealised.\<close>

definition deg2rad_factor :: real where
  "deg2rad_factor = 5030569068109113 / 288230376151711744"

definition np_deg2rad :: "real \<Rightarrow> real" where
  "np_deg2rad x = f64 (x * deg2rad_factor)"

definition np_rad2deg :: "real \<Rightarrow> real" where
  "np_rad2deg x = x * (180 / pi)"

text \<open>Division of two finite numpy floats: by zero it gives an infinity with the sign of the
  numerator, or NaN for 0/0, and a warning, not an exception.\<close>

definition np_divide :: "real \<Rightarrow> real \<Rightarrow> npfloat" where
  "np_divide a b =
     (if b \<noteq> 0 then Fin (a / b)
      else if 0 < a then PInf else if a < 0 then NInf else NaN)"

text \<open>Comparison of a numpy float with a finite constant; every comparison with NaN is
  false.\<close>

fun np_le :: "npfloat \<Rightarrow> real \<Rightarrow> bool" where
  "np_le (Fin x) c = (x \<le> c)"
| "np_le PInf c = False"
| "np_le NInf c = True"
| "np_le NaN c = False"

fun np_ge :: "npfloat \<Rightarrow> real \<Rightarrow> bool" where
  "np_ge (Fin x) c = (x \<ge> c)"
| "np_ge PInf c = True"
| "np_ge NInf c = False"
| "np_ge NaN c = False"

text \<open>\<open>np.arccos\<close> is NaN outside [-1, 1]; \<open>np.rad2deg\<close>, the product with 2.0 and the
  quotient by 15.0 carry infinities and NaN through.\<close>

fun np_arccos :: "npfloat \<Rightarrow> npfloat" where
  "np_arccos (Fin x) = (if - 1 \<le> x \<and> x \<le> 1 then Fin (arccos x) else NaN)"
| "np_arccos PInf = NaN"
| "np_arccos NInf = NaN"
| "np_arccos NaN = NaN"

fun np_scale :: "(real \<Rightarrow> real) \<Rightarrow> npfloat \<Rightarrow> npfloat" where
  "np_scale f (Fin x) = Fin (f x)"
| "np_scale f PInf = PInf"
| "np_scale f NInf = NInf"
| "np_scale f NaN = NaN"

datatype condition = Normal_Day | Polar_Day | Polar_Night

definition calculate_daylight :: "real \<Rightarrow> date \<Rightarrow> npfloat \<times> condition" where
  "calculate_daylight lat_deg d =
     (let phi = np_deg2rad lat_deg;
          delta = solar_declination_rad d;
          h0 = np_deg2rad (- 0.833);
          sin_phi = sin phi; cos_phi = cos phi;
          sin_delta = sin delta; cos_delta = cos delta;
          sin_h0 = sin h0;
          cos_H0 = np_divide (sin_h0 - sin_phi * sin_delta) (cos_phi * cos_delta)
      in if np_le cos_H0 (- 1.0) then (Fin 24.0, Polar_Day)
         else if np_ge cos_H0 1.0 then (Fin 0.0, Polar_Night)
         else
           (let H0 = np_arccos cos_H0;
                daylight_hours =
                  np_scale (\<lambda>x. x / 15.0) (np_scale (\<lambda>x. 2.0 * x) (np_scale np_rad2deg H0))
            in (daylight_hours, Normal_Day)))"

subsection \<open>The yearly table\<close>









subsection \<open>Formatting a duration\<close>

text \<open>\<open>int(x)\<close> on a float truncates towards zero.\<close>

definition py_trunc :: "real \<Rightarrow> int" where
  "py_trunc x = (if 0 \<le> x then \<lfloor>x\<rfloor> else \<lceil>x\<rceil>)"

text \<open>\<open>np.round\<close> rounds to the nearest integer, a tie to the even one, and returns a
  float.\<close>

definition np_round :: "real \<Rightarrow> real" where
  "np_round x = of_int (rint x)"





subsection \<open>Predicates on durations\<close>

text \<open>A duration is a finite number strictly inside an interval.\<close>

definition strictly_between :: "real \<Rightarrow> real \<Rightarrow> npfloat \<Rightarrow> bool" where
  "strictly_between lo hi v = (case v of Fin x \<Rightarrow> lo < x \<and> x < hi | _ \<Rightarrow> False)"

text \<open>A duration is a finite number within a tolerance of a value.\<close>

definition within_of :: "real \<Rightarrow> real \<Rightarrow> npfloat \<Rightarrow> bool" where
  "within_of eps c v = (case v of Fin x \<Rightarrow> \<bar>x - c\<bar> \<le> eps | _ \<Rightarrow> False)"

section \<open>Properties\<close>

subsection \<open>Binary64 rounding\<close>

lemma rint_of_int [simp]: "rint (of_int k) = k"
  by (simp add: rint_def)


lemma rint_lower: "k \<le> rint x" if "of_int k \<le> x"
proof -
  from that have "k \<le> \<lfloor>x\<rfloor>" by (simp add: le_floor_iff)
  then show ?thesis unfolding rint_def Let_def by auto
qed

lemma rint_upper: "rint x \<le> k" if "x \<le> of_int k"
proof (cases "x = of_int k")
  case True
  then show ?thesis by simp
next
  case False
  with that have "x < of_int k" by simp
  then have "\<lfloor>x\<rfloor> < k" by (simp add: floor_less_iff)
  then show ?thesis unfolding rint_def Let_def by auto
qed

lemma rint_mono: "rint x \<le> rint y" if "x \<le> y"
proof (cases "\<lfloor>x\<rfloor> = \<lfloor>y\<rfloor>")
  case True
  with that have "x - of_int \<lfloor>x\<rfloor> \<le> y - of_int \<lfloor>y\<rfloor>" by simp
  then show ?thesis unfolding rint_def Let_def True by auto
next
  case False
  with that have "\<lfloor>x\<rfloor> + 1 \<le> \<lfloor>y\<rfloor>" using floor_mono [OF that] by linarith
  moreover have "rint x \<le> \<lfloor>x\<rfloor> + 1" unfolding rint_def Let_def by auto
  moreover have "\<lfloor>y\<rfloor> \<le> rint y" unfolding rint_def Let_def by auto
  ultimately show ?thesis by linarith
qed

lemma rint_minus: "rint (- x) = - rint x"
proof (cases "x = of_int \<lfloor>x\<rfloor>")
  case True
  then have "rint x = \<lfloor>x\<rfloor>" by (metis rint_of_int)
  moreover from True have "- x = of_int (- \<lfloor>x\<rfloor>)" by simp
  then have "rint (- x) = - \<lfloor>x\<rfloor>" by (metis rint_of_int)
  ultimately show ?thesis by simp
next
  case False
  define f where "f = \<lfloor>x\<rfloor>"
  define r where "r = x - of_int f"
  have r: "0 < r" "r < 1" using False unfolding r_def f_def by linarith+
  have x: "x = of_int f + r" by (simp add: r_def)
  have "\<lfloor>- x\<rfloor> = - f - 1"
    by (rule floor_unique) (use r in \<open>simp_all add: x\<close>)
  then have n: "\<lfloor>- x\<rfloor> = - f - 1" "- x - of_int \<lfloor>- x\<rfloor> = 1 - r" by (simp_all add: x)
  have p: "\<lfloor>x\<rfloor> = f" "x - of_int \<lfloor>x\<rfloor> = r" by (simp_all add: f_def r_def)
  show ?thesis unfolding rint_def Let_def n p using r by auto
qed

lemma powr_two_int: "(2::real) powr of_int k = 2 powi k"
  by (simp add: powr_real_of_int')

lemma powr_two_int_Suc: "(2::real) powr (of_int k + 1) = 2 powi (k + 1)"
  using powr_two_int [of "k + 1"] by simp

lemma binade_exponent:
  assumes "0 < x"
  shows "2 powi \<lfloor>log 2 x\<rfloor> \<le> x" and "x < 2 powi (\<lfloor>log 2 x\<rfloor> + 1)"
proof -
  have "(2::real) powr of_int \<lfloor>log 2 x\<rfloor> \<le> x \<and> x < 2 powr (of_int \<lfloor>log 2 x\<rfloor> + 1)"
    using floor_log_eq_powr_iff [of x 2 "\<lfloor>log 2 x\<rfloor>"] assms by simp
  then show "2 powi \<lfloor>log 2 x\<rfloor> \<le> x" and "x < 2 powi (\<lfloor>log 2 x\<rfloor> + 1)"
    by (simp_all only: powr_two_int powr_two_int_Suc)
qed

lemma binade_unique:
  assumes "2 powi e \<le> x" and "x < 2 powi (e + 1)"
  shows "\<lfloor>log 2 x\<rfloor> = e"
proof -
  have pos: "0 < x" using assms(1) zero_less_power_int [of "2::real" e] by linarith
  have "(2::real) powr of_int e \<le> x \<and> x < 2 powr (of_int e + 1)"
    using assms by (simp only: powr_two_int powr_two_int_Suc simp_thms)
  then show ?thesis using floor_log_eq_powr_iff [of x 2 e] pos by simp
qed

lemma f64_binade:
  assumes "2 powi e \<le> \<bar>x\<bar>" and "\<bar>x\<bar> < 2 powi (e + 1)"
  shows "f64 x = 2 powi (e - 52) * of_int (rint (x / 2 powi (e - 52)))"
proof -
  have "0 < \<bar>x\<bar>" using assms(1) zero_less_power_int [of "2::real" e] by linarith
  then have "x \<noteq> 0" by simp
  then show ?thesis by (simp add: f64_def Let_def binade_unique [OF assms])
qed

lemma f64_minus: "f64 (- x) = - f64 x"
  by (simp add: f64_def Let_def rint_minus)

lemma power_int_split: "(2::real) powi (e - 52) * 2 ^ 52 = 2 powi e"
proof -
  have "(2::real) powi (e - 52) * 2 powi 52 = 2 powi (e - 52 + 52)"
    by (subst power_int_add) simp_all
  then show ?thesis by simp
qed

lemma f64_in_binade:
  assumes "2 powi e \<le> x" and "x < 2 powi (e + 1)"
  shows "2 powi e \<le> f64 x" and "f64 x \<le> 2 powi (e + 1)"
proof -
  define u :: real where "u = 2 powi (e - 52)"
  have u: "0 < u" by (simp add: u_def)
  have pos: "0 < x" using assms(1) zero_less_power_int [of "2::real" e] by linarith
  then have ax: "\<bar>x\<bar> = x" by simp
  have f: "f64 x = u * of_int (rint (x / u))"
    using f64_binade [of e x] assms by (simp add: ax u_def)
  have e0: "u * 2 ^ 52 = 2 powi e" unfolding u_def by (rule power_int_split)
  have "(2::real) powi (e + 1) = 2 powi e * 2" by (subst power_int_add) simp_all
  then have e1: "u * 2 ^ 53 = 2 powi (e + 1)" using e0 by simp
  have "of_int (2 ^ 52) \<le> x / u" using assms(1) u e0 by (simp add: pos_le_divide_eq mult.commute)
  then have "2 ^ 52 \<le> rint (x / u)" by (rule rint_lower)
  then have "(2::real) ^ 52 \<le> of_int (rint (x / u))" by (metis of_int_le_iff of_int_numeral of_int_power)
  then have "u * 2 ^ 52 \<le> u * of_int (rint (x / u))" using u by (intro mult_left_mono) simp_all
  then show "2 powi e \<le> f64 x" by (simp only: f e0)
  have "x / u \<le> of_int (2 ^ 53)" using assms(2) u e1 by (simp add: pos_divide_le_eq mult.commute)
  then have "rint (x / u) \<le> 2 ^ 53" by (rule rint_upper)
  then have "of_int (rint (x / u)) \<le> (2::real) ^ 53" by (metis of_int_le_iff of_int_numeral of_int_power)
  then have "u * of_int (rint (x / u)) \<le> u * 2 ^ 53" using u by (intro mult_left_mono) simp_all
  then show "f64 x \<le> 2 powi (e + 1)" by (simp only: f e1)
qed

lemma f64_pos: "0 < f64 x" if "0 < x"
proof -
  have "0 < (2::real) powi \<lfloor>log 2 x\<rfloor>" by simp
  also have "\<dots> \<le> f64 x" by (rule f64_in_binade(1) [OF binade_exponent [OF that]])
  finally show ?thesis .
qed

lemma f64_mono_pos:
  assumes "0 < x" and "x \<le> y"
  shows "f64 x \<le> f64 y"
proof -
  define a where "a = \<lfloor>log 2 x\<rfloor>"
  define b where "b = \<lfloor>log 2 y\<rfloor>"
  have y: "0 < y" using assms by simp
  note bx = binade_exponent [OF assms(1), folded a_def]
  note by' = binade_exponent [OF y, folded b_def]
  have ab: "a \<le> b"
  proof (rule ccontr)
    assume "\<not> a \<le> b"
    then have "b + 1 \<le> a" by simp
    then have "(2::real) powi (b + 1) \<le> 2 powi a" by (intro power_int_increasing) simp_all
    with bx(1) by'(2) assms(2) show False by linarith
  qed
  show ?thesis
  proof (cases "a = b")
    case True
    define u :: real where "u = 2 powi (a - 52)"
    have u: "0 < u" by (simp add: u_def)
    have fx: "f64 x = u * of_int (rint (x / u))"
      using f64_binade [of a x] bx assms(1) by (simp add: u_def)
    have fy: "f64 y = u * of_int (rint (y / u))"
      using f64_binade [of a y] by' y True by (simp add: u_def)
    have "x / u \<le> y / u" using assms(2) u by (simp add: divide_right_mono)
    then have "rint (x / u) \<le> rint (y / u)" by (rule rint_mono)
    then show ?thesis unfolding fx fy using u by (intro mult_left_mono) simp_all
  next
    case False
    with ab have "a + 1 \<le> b" by simp
    then have "(2::real) powi (a + 1) \<le> 2 powi b" by (intro power_int_increasing) simp_all
    with f64_in_binade(2) [OF bx] f64_in_binade(1) [OF by'] show ?thesis by linarith
  qed
qed

lemma f64_mono:
  assumes "x \<le> y"
  shows "f64 x \<le> f64 y"
proof -
  consider "0 < x" | "x \<le> 0" "0 \<le> y" | "y < 0" using assms by linarith
  then show ?thesis
  proof cases
    case 1
    then show ?thesis using assms by (rule f64_mono_pos)
  next
    case 2
    have "f64 x \<le> 0"
    proof (cases "x = 0")
      case True
      then show ?thesis by (simp add: f64_def)
    next
      case False
      with 2 have "0 < - x" by simp
      from f64_pos [OF this] show ?thesis by (simp add: f64_minus)
    qed
    moreover have "0 \<le> f64 y"
    proof (cases "y = 0")
      case True
      then show ?thesis by (simp add: f64_def)
    next
      case False
      with 2 have "0 < y" by simp
      from f64_pos [OF this] show ?thesis by simp
    qed
    ultimately show ?thesis by linarith
  next
    case 3
    then have "0 < - y" "- y \<le> - x" using assms by simp_all
    from f64_mono_pos [OF this] show ?thesis by (simp add: f64_minus)
  qed
qed

lemma rint_numeral [simp]: "rint (numeral n) = numeral n"
  using rint_of_int [of "numeral n"] by simp

lemma f64_zero [simp]: "f64 0 = 0"
  by (simp add: f64_def)

lemma f64_one [simp]: "f64 1 = 1"
  using f64_binade [of 0 1] by simp

lemma f64_60 [simp]: "f64 60 = 60"
  using f64_binade [of 5 60] by simp


subsection \<open>Day of the year\<close>

lemma digit_val_digit_char: "k < 10 \<Longrightarrow> digit_val (digit_char k) = k"
  by (simp add: digit_val_def digit_char_def)

lemma three_digits:
  assumes "n < 1000"
  shows "10 * (10 * (n div 100 mod 10) + n div 10 mod 10) + n mod 10 = (n::nat)"
proof -
  define q where "q = n div 10"
  have q: "n div 100 = q div 10" by (simp add: q_def div_mult2_eq)
  have "q div 10 < 10" using assms by (simp add: q_def)
  then have "q div 10 mod 10 = q div 10" by simp
  moreover have "10 * (q div 10) + q mod 10 = q" by simp
  moreover have "10 * q + n mod 10 = n" by (simp add: q_def)
  ultimately show ?thesis unfolding q q_def [symmetric] by simp
qed

lemma py_int_three_digits:
  assumes "n < 1000"
  shows "py_int [digit_char (n div 100 mod 10), digit_char (n div 10 mod 10), digit_char (n mod 10)] = int n"
proof -
  have "py_int [digit_char (n div 100 mod 10), digit_char (n div 10 mod 10), digit_char (n mod 10)]
      = int (10 * (10 * (n div 100 mod 10) + n div 10 mod 10) + n mod 10)"
    by (simp add: py_int_def digit_val_digit_char)
  then show ?thesis by (simp only: three_digits [OF assms])
qed

lemma month_cases:
  assumes "1 \<le> m" "m \<le> (12::int)"
  shows "m = 1 \<or> m = 2 \<or> m = 3 \<or> m = 4 \<or> m = 5 \<or> m = 6 \<or> m = 7 \<or> m = 8 \<or> m = 9 \<or> m = 10 \<or> m = 11 \<or> m = 12"
  using assms by arith

lemma days_before_month_simps:
  "days_before_month y 1 = 0"
  "days_before_month y 2 = 31"
  "days_before_month y 3 = 59 + (if is_leap y then 1 else 0)"
  "days_before_month y 4 = 90 + (if is_leap y then 1 else 0)"
  "days_before_month y 5 = 120 + (if is_leap y then 1 else 0)"
  "days_before_month y 6 = 151 + (if is_leap y then 1 else 0)"
  "days_before_month y 7 = 181 + (if is_leap y then 1 else 0)"
  "days_before_month y 8 = 212 + (if is_leap y then 1 else 0)"
  "days_before_month y 9 = 243 + (if is_leap y then 1 else 0)"
  "days_before_month y 10 = 273 + (if is_leap y then 1 else 0)"
  "days_before_month y 11 = 304 + (if is_leap y then 1 else 0)"
  "days_before_month y 12 = 334 + (if is_leap y then 1 else 0)"
  by (simp_all add: days_before_month_def eval_nat_numeral)

lemma days_in_month_simps:
  "days_in_month y 1 = 31"
  "days_in_month y 2 = (if is_leap y then 29 else 28)"
  "days_in_month y 3 = 31"
  "days_in_month y 4 = 30"
  "days_in_month y 5 = 31"
  "days_in_month y 6 = 30"
  "days_in_month y 7 = 31"
  "days_in_month y 8 = 31"
  "days_in_month y 9 = 30"
  "days_in_month y 10 = 31"
  "days_in_month y 11 = 30"
  "days_in_month y 12 = 31"
  by (simp_all add: days_in_month_def)


lemma days_before_month_nonneg:
  assumes "1 \<le> m" "m \<le> 12"
  shows "0 \<le> days_before_month y m"
  using month_cases [OF assms]
  by (elim disjE) (simp_all add: days_before_month_simps)


lemma days_before_month_upper:
  assumes "1 \<le> m" "m \<le> 12"
  shows "days_before_month y m + days_in_month y m \<le> days_in_year y"
  using month_cases [OF assms]
  by (elim disjE) (simp_all add: days_before_month_simps days_in_month_simps days_in_year_def)

lemma yday_bounds:
  assumes "valid_date d"
  shows "1 \<le> yday d" and "yday d \<le> days_in_year (year d)"
proof -
  from assms have m: "1 \<le> month d" "month d \<le> 12"
    and dd: "1 \<le> day d" "day d \<le> days_in_month (year d) (month d)"
    by (simp_all add: valid_date_def)
  show "1 \<le> yday d"
    using days_before_month_nonneg [OF m, of "year d"] dd by (simp add: yday_def)
  show "yday d \<le> days_in_year (year d)"
    using days_before_month_upper [OF m, of "year d"] dd by (simp add: yday_def)
qed

lemma day_of_year_valid:
  assumes "valid_date d"
  shows "day_of_year d = yday d"
proof -
  have "days_in_year (year d) \<le> 366" by (simp add: days_in_year_def)
  with yday_bounds [OF assms] have b: "1 \<le> yday d" "yday d \<le> 366" by simp_all
  then have "nat (yday d) < 1000" by simp
  from py_int_three_digits [OF this] b show ?thesis
    by (simp add: day_of_year_def strftime_j_def yday_def Let_def)
qed

lemma declination_of_doy_series:
  "declination_of_doy n =
     (let g = 2 * pi * real_of_int (n - 1) / 365
      in 0.006918 - 0.399912 * cos g + 0.070257 * sin g
         - 0.006758 * cos (2 * g) + 0.000907 * sin (2 * g)
         - 0.002697 * cos (3 * g) + 0.001480 * sin (3 * g))"
  by (simp add: declination_of_doy_def Let_def)

lemma declination_abs_bound: "\<bar>declination_of_doy n\<bar> \<le> 0.488929"
proof -
  define g where "g = 2 * pi * real_of_int (n - 1) / 365"
  define c1 s1 c2 s2 c3 s3 where "c1 = cos g" and "s1 = sin g" and "c2 = cos (2 * g)"
    and "s2 = sin (2 * g)" and "c3 = cos (3 * g)" and "s3 = sin (3 * g)"
  have b: "- 1 \<le> c1" "c1 \<le> 1" "- 1 \<le> s1" "s1 \<le> 1" "- 1 \<le> c2" "c2 \<le> 1"
    "- 1 \<le> s2" "s2 \<le> 1" "- 1 \<le> c3" "c3 \<le> 1" "- 1 \<le> s3" "s3 \<le> 1"
    by (simp_all add: c1_def s1_def c2_def s2_def c3_def s3_def)
  have eq: "declination_of_doy n = 0.006918 - 0.399912 * c1 + 0.070257 * s1
      - 0.006758 * c2 + 0.000907 * s2 - 0.002697 * c3 + 0.001480 * s3"
    by (simp add: declination_of_doy_series g_def Let_def c1_def s1_def c2_def s2_def c3_def s3_def)
  show ?thesis unfolding eq abs_le_iff using b by auto
qed

text \<open>
  Claim C2.  For every valid calendar date with 1-based day-of-year \<open>n\<close>, the declination
  estimator returns the seven-term series in the day angle \<open>2 pi (n - 1) / 365\<close>, with the
  divisor 365 also in leap years.  The estimator is a total function into the reals: it has
  no error value and no state.
\<close>

theorem solar_declination_rad_series:
  assumes "valid_date d"
  shows "1 \<le> yday d \<and> yday d \<le> days_in_year (year d) \<and>
    solar_declination_rad d =
     (let n = yday d; gamma = 2 * pi * real_of_int (n - 1) / 365
      in 0.006918 - 0.399912 * cos gamma + 0.070257 * sin gamma
         - 0.006758 * cos (2 * gamma) + 0.000907 * sin (2 * gamma)
         - 0.002697 * cos (3 * gamma) + 0.001480 * sin (3 * gamma))"
  using yday_bounds [OF assms]
  by (simp add: solar_declination_rad_def day_of_year_valid [OF assms]
      declination_of_doy_series Let_def)

theorem solar_declination_rad_series_witness:
  "valid_date \<lparr>year = 2024, month = 12, day = 31\<rparr> \<and>
   yday \<lparr>year = 2024, month = 12, day = 31\<rparr> = 366 \<and>
   solar_declination_rad \<lparr>year = 2024, month = 12, day = 31\<rparr> =
     0.006918 - 0.399912 * cos (2 * pi) + 0.070257 * sin (2 * pi)
         - 0.006758 * cos (2 * (2 * pi)) + 0.000907 * sin (2 * (2 * pi))
         - 0.002697 * cos (3 * (2 * pi)) + 0.001480 * sin (3 * (2 * pi))"
proof -
  have v: "valid_date \<lparr>year = 2024, month = 12, day = 31\<rparr>"
    by (simp add: valid_date_def days_in_month_simps)
  have y: "yday \<lparr>year = 2024, month = 12, day = 31\<rparr> = 366"
    by (simp add: yday_def days_before_month_simps is_leap_def)
  show ?thesis
    using v y solar_declination_rad_series [OF v] by (simp add: Let_def)
qed

text \<open>
  Over the reals the series has period 365 in the day number.  This is a property of the
  idealised series only: the binary64 values at \<open>n\<close> and at \<open>n + 365\<close> differ in their
  last bits, since \<open>2.0 * np.pi\<close> is not a period of \<open>np.sin\<close>.
\<close>

lemma declination_of_doy_real_period:
  "declination_of_doy (n + 365) = declination_of_doy n"
proof -
  define g where "g = 2 * pi * real_of_int (n - 1) / 365"
  have g': "2 * pi * real_of_int (n + 365 - 1) / 365 = g + 2 * pi"
    by (simp add: g_def field_simps)
  have s1: "sin (g + 2 * pi) = sin g" and c1: "cos (g + 2 * pi) = cos g" by simp_all
  have "2 * (g + 2 * pi) = 2 * g + 2 * pi + 2 * pi" by simp
  then have s2: "sin (2 * (g + 2 * pi)) = sin (2 * g)" and c2: "cos (2 * (g + 2 * pi)) = cos (2 * g)"
    by (simp_all only: sin_periodic cos_periodic)
  have "3 * (g + 2 * pi) = 3 * g + 2 * pi + 2 * pi + 2 * pi" by simp
  then have s3: "sin (3 * (g + 2 * pi)) = sin (3 * g)" and c3: "cos (3 * (g + 2 * pi)) = cos (3 * g)"
    by (simp_all only: sin_periodic cos_periodic)
  show ?thesis
    unfolding declination_of_doy_series Let_def g' s1 c1 s2 c2 s3 c3 g_def [symmetric] ..
qed

lemma declination_lt_pi_half: "\<bar>declination_of_doy n\<bar> < pi / 2"
proof -
  have "(0.488929::real) < 1" by simp
  also have "(1::real) \<le> pi / 2" using pi_ge_two by simp
  finally show ?thesis using declination_abs_bound [of n] by linarith
qed

lemma cos_declination_pos: "0 < cos (declination_of_doy n)"
  using declination_lt_pi_half [of n] by (intro cos_gt_zero_pi) (simp_all add: abs_less_iff)

text \<open>
  Claim C10.  The declination is at most 0.488929 in absolute value, the sum of the absolute
  values of the seven coefficients; hence its cosine is positive and the denominator
  \<open>cos_phi * cos_delta\<close> of calculate_daylight vanishes only when \<open>cos_phi\<close> does.
\<close>

theorem declination_bound_denominator:
  "\<bar>solar_declination_rad d\<bar> \<le> 0.488929
   \<and> (0.006918 + 0.399912 + 0.070257 + 0.006758 + 0.000907 + 0.002697 + 0.001480 = (0.488929::real))
   \<and> 0 < cos (solar_declination_rad d)
   \<and> (cos (np_deg2rad lat_deg) * cos (solar_declination_rad d) = 0
        \<longleftrightarrow> cos (np_deg2rad lat_deg) = 0)"
proof -
  have "0 < cos (solar_declination_rad d)"
    by (simp add: solar_declination_rad_def cos_declination_pos)
  moreover have "\<bar>solar_declination_rad d\<bar> \<le> 0.488929"
    unfolding solar_declination_rad_def Let_def by (rule declination_abs_bound)
  ultimately show ?thesis by simp
qed

subsection \<open>Bounds on pi and on the sine\<close>

lemma sin_coeff_small:
  "sin_coeff (Suc 0) = 1" "sin_coeff 2 = 0" "sin_coeff 3 = - 1 / 6"
  "sin_coeff 4 = 0" "sin_coeff 5 = 1 / 120" "sin_coeff 6 = 0"
  by (simp_all add: sin_coeff_def fact_numeral)

lemma sin_taylor7:
  fixes x :: real
  shows "\<bar>sin x - (x - x ^ 3 / 6 + x ^ 5 / 120)\<bar> \<le> \<bar>x\<bar> ^ 7 / 5040"
proof -
  have "{..<7::nat} = {0, 1, 2, 3, 4, 5, 6}" by auto
  then have "(\<Sum>m<7. sin_coeff m * x ^ m) = x - x ^ 3 / 6 + x ^ 5 / 120"
    by (simp add: sin_coeff_small)
  moreover have "inverse (fact 7) * \<bar>x\<bar> ^ 7 = \<bar>x\<bar> ^ 7 / 5040"
    by (simp add: fact_numeral)
  ultimately show ?thesis
    using Maclaurin_sin_bound [of x 7] by (simp only:)
qed

lemma sin_upper7:
  fixes x :: real
  shows "sin x \<le> x - x ^ 3 / 6 + x ^ 5 / 120 + \<bar>x\<bar> ^ 7 / 5040"
  using sin_taylor7 [of x] unfolding abs_le_iff by linarith

lemma sin_lower7:
  fixes x :: real
  shows "x - x ^ 3 / 6 + x ^ 5 / 120 - \<bar>x\<bar> ^ 7 / 5040 \<le> sin x"
  using sin_taylor7 [of x] unfolding abs_le_iff by linarith

lemma pi_gt_314: "3.14 < pi"
proof -
  have "sin (0.785::real) \<le> 0.785 - 0.785 ^ 3 / 6 + 0.785 ^ 5 / 120 + \<bar>0.785\<bar> ^ 7 / 5040"
    by (rule sin_upper7)
  also have "\<dots> < 0.7069" by (simp add: power_divide)
  finally have u: "sin (0.785::real) < 0.7069" .
  have "0 \<le> sin (0.785::real)" using pi_ge_two by (intro sin_ge_zero) simp_all
  with u have "sin (0.785::real) ^ 2 < 0.7069 ^ 2" by (intro power_strict_mono) simp_all
  also have "\<dots> < 1 / 2" by (simp add: power_divide)
  finally have "sin (0.785::real) ^ 2 < 1 / 2" .
  moreover have "cos (2 * 0.785) = 1 - 2 * sin (0.785::real) ^ 2" by (rule cos_double_sin)
  ultimately have c: "0 < cos (1.57::real)" by simp
  show ?thesis
  proof (rule ccontr)
    assume "\<not> 3.14 < pi"
    then have "pi / 2 \<le> 1.57" by simp
    moreover have "(1.57::real) \<le> pi" using pi_ge_two by simp
    ultimately have "cos 1.57 \<le> cos (pi / 2)" by (intro cos_monotone_0_pi_le) simp_all
    with c show False by simp
  qed
qed

lemma pi_lt_315: "pi < 3.15"
proof -
  have "(0.7085::real) < 0.7875 - 0.7875 ^ 3 / 6 + 0.7875 ^ 5 / 120 - \<bar>0.7875\<bar> ^ 7 / 5040"
    by (simp add: power_divide)
  also have "\<dots> \<le> sin (0.7875::real)" by (rule sin_lower7)
  finally have l: "0.7085 < sin (0.7875::real)" .
  have "(1::real) / 2 < 0.7085 ^ 2" by (simp add: power_divide)
  also from l have "0.7085 ^ 2 < sin (0.7875::real) ^ 2" by (intro power_strict_mono) simp_all
  finally have "1 / 2 < sin (0.7875::real) ^ 2" .
  moreover have "cos (2 * 0.7875) = 1 - 2 * sin (0.7875::real) ^ 2" by (rule cos_double_sin)
  ultimately have c: "cos (1.575::real) < 0" by simp
  show ?thesis
  proof (rule ccontr)
    assume "\<not> pi < 3.15"
    then have "1.575 \<le> pi / 2" by simp
    then have "0 \<le> cos (1.575::real)" by (intro cos_ge_zero) simp_all
    with c show False by simp
  qed
qed

lemma sin_coeff_19:
  "sin_coeff (Suc 0) = 1" "sin_coeff 2 = 0" "sin_coeff 3 = - 1 / 6"
  "sin_coeff 4 = 0" "sin_coeff 5 = 1 / 120" "sin_coeff 6 = 0" "sin_coeff 7 = - 1 / 5040"
  "sin_coeff 8 = 0" "sin_coeff 9 = 1 / 362880" "sin_coeff 10 = 0"
  "sin_coeff 11 = - 1 / 39916800" "sin_coeff 12 = 0" "sin_coeff 13 = 1 / 6227020800"
  "sin_coeff 14 = 0" "sin_coeff 15 = - 1 / 1307674368000" "sin_coeff 16 = 0"
  "sin_coeff 17 = 1 / 355687428096000" "sin_coeff 18 = 0"
  by (simp_all add: sin_coeff_def fact_numeral)

lemma sin_taylor19:
  fixes x :: real
  shows "\<bar>sin x - (x - x ^ 3 / 6 + x ^ 5 / 120 - x ^ 7 / 5040 + x ^ 9 / 362880
      - x ^ 11 / 39916800 + x ^ 13 / 6227020800 - x ^ 15 / 1307674368000
      + x ^ 17 / 355687428096000)\<bar> \<le> \<bar>x\<bar> ^ 19 / 121645100408832000"
proof -
  have "{..<19::nat} = {0, 1, 2, 3, 4, 5, 6, 7, 8, 9, 10, 11, 12, 13, 14, 15, 16, 17, 18}"
    by auto arith
  then have "(\<Sum>m<19. sin_coeff m * x ^ m) = x - x ^ 3 / 6 + x ^ 5 / 120 - x ^ 7 / 5040
      + x ^ 9 / 362880 - x ^ 11 / 39916800 + x ^ 13 / 6227020800 - x ^ 15 / 1307674368000
      + x ^ 17 / 355687428096000"
    by (simp add: sin_coeff_19)
  moreover have "inverse (fact 19) * \<bar>x\<bar> ^ 19 = \<bar>x\<bar> ^ 19 / 121645100408832000"
    by (simp add: fact_numeral)
  ultimately show ?thesis
    using Maclaurin_sin_bound [of x 19] by (simp only:)
qed

lemma sin_upper19:
  fixes x :: real
  shows "sin x \<le> x - x ^ 3 / 6 + x ^ 5 / 120 - x ^ 7 / 5040 + x ^ 9 / 362880
      - x ^ 11 / 39916800 + x ^ 13 / 6227020800 - x ^ 15 / 1307674368000
      + x ^ 17 / 355687428096000 + \<bar>x\<bar> ^ 19 / 121645100408832000"
  using sin_taylor19 [of x] unfolding abs_le_iff by linarith

lemma np_pi_lt_pi: "884279719003555 / 281474976710656 < pi"
proof -
  define x :: real where "x = 884279719003555 / 1125899906842624"
  have "sin x \<le> x - x ^ 3 / 6 + x ^ 5 / 120 - x ^ 7 / 5040 + x ^ 9 / 362880
      - x ^ 11 / 39916800 + x ^ 13 / 6227020800 - x ^ 15 / 1307674368000
      + x ^ 17 / 355687428096000 + \<bar>x\<bar> ^ 19 / 121645100408832000"
    by (rule sin_upper19)
  also have "\<dots> < 7071067811865475040 / 10000000000000000000"
    unfolding x_def by (simp add: power_divide)
  finally have u: "sin x < 7071067811865475040 / 10000000000000000000" .
  have "0 \<le> sin x" using pi_ge_two by (intro sin_ge_zero) (simp_all add: x_def)
  with u have "sin x ^ 2 < (7071067811865475040 / 10000000000000000000) ^ 2"
    by (intro power_strict_mono) simp_all
  also have "\<dots> < 1 / 2" by (simp add: power_divide)
  finally have "sin x ^ 2 < 1 / 2" .
  moreover have "cos (2 * x) = 1 - 2 * sin x ^ 2" by (rule cos_double_sin)
  ultimately have c: "0 < cos (2 * x)" by simp
  have "2 * x < pi / 2"
  proof (rule ccontr)
    assume "\<not> 2 * x < pi / 2"
    then have "pi / 2 \<le> 2 * x" by simp
    moreover have "2 * x \<le> pi" using pi_ge_two by (simp add: x_def)
    ultimately have "cos (2 * x) \<le> cos (pi / 2)" by (intro cos_monotone_0_pi_le) simp_all
    with c show False by simp
  qed
  then show ?thesis by (simp add: x_def)
qed

subsection \<open>A sharper bound on the declination\<close>

lemma harmonic_bound:
  fixes a b R x :: real
  assumes "a\<^sup>2 + b\<^sup>2 \<le> R\<^sup>2" and "0 \<le> R"
  shows "\<bar>a * cos x + b * sin x\<bar> \<le> R"
proof -
  have "(a * cos x + b * sin x)\<^sup>2 + (a * sin x - b * cos x)\<^sup>2
      = (a\<^sup>2 + b\<^sup>2) * ((sin x)\<^sup>2 + (cos x)\<^sup>2)"
    by algebra
  also have "\<dots> = a\<^sup>2 + b\<^sup>2" by simp
  finally have "(a * cos x + b * sin x)\<^sup>2 \<le> a\<^sup>2 + b\<^sup>2"
    using zero_le_power2 [of "a * sin x - b * cos x"] by linarith
  with assms(1) have "(a * cos x + b * sin x)\<^sup>2 \<le> R\<^sup>2" by linarith
  then have "\<bar>a * cos x + b * sin x\<bar> \<le> \<bar>R\<bar>" by (simp only: abs_le_square_iff)
  with assms(2) show ?thesis by simp
qed

lemma declination_tight_bound: "\<bar>declination_of_doy n\<bar> \<le> 0.422858"
proof -
  define g where "g = 2 * pi * real_of_int (n - 1) / 365"
  define t1 t2 t3 where "t1 = (- 0.399912) * cos g + 0.070257 * sin g"
    and "t2 = (- 0.006758) * cos (2 * g) + 0.000907 * sin (2 * g)"
    and "t3 = (- 0.002697) * cos (3 * g) + 0.001480 * sin (3 * g)"
  have b1: "\<bar>t1\<bar> \<le> 0.40604" unfolding t1_def
    by (rule harmonic_bound) (simp_all add: power_divide)
  have b2: "\<bar>t2\<bar> \<le> 0.00682" unfolding t2_def
    by (rule harmonic_bound) (simp_all add: power_divide)
  have b3: "\<bar>t3\<bar> \<le> 0.00308" unfolding t3_def
    by (rule harmonic_bound) (simp_all add: power_divide)
  have eq: "declination_of_doy n = 0.006918 + t1 + t2 + t3"
    by (simp add: declination_of_doy_series g_def Let_def t1_def t2_def t3_def)
  show ?thesis using b1 b2 b3 unfolding eq abs_le_iff by auto
qed

subsection \<open>The hour angle\<close>

lemma hour_angle_normal:
  fixes p dl h :: real
  assumes sum: "\<bar>p\<bar> + \<bar>dl\<bar> < pi / 2 - h" and h: "0 < h"
  shows "0 < cos p * cos dl"
    and "- 1 < (sin (- h) - sin p * sin dl) / (cos p * cos dl)"
    and "(sin (- h) - sin p * sin dl) / (cos p * cos dl) < 1"
proof -
  have cp: "0 < cos p" using sum h by (intro cos_gt_zero_pi) linarith+
  have cd: "0 < cos dl" using sum h by (intro cos_gt_zero_pi) linarith+
  show den: "0 < cos p * cos dl" using cp cd by simp
  have "0 < sin h" using sum h by (intro sin_gt_zero2) linarith+
  have "cos (pi / 2 - h) < cos \<bar>p + dl\<bar>"
    using sum h by (intro cos_monotone_0_pi) linarith+
  then have "sin h < cos (p + dl)" by (simp add: cos_diff)
  then have "- (cos p * cos dl) < sin (- h) - sin p * sin dl"
    by (simp add: cos_add)
  then show "- 1 < (sin (- h) - sin p * sin dl) / (cos p * cos dl)"
    using den by (simp add: pos_less_divide_eq)
  have "0 < cos (p - dl)" using sum h by (intro cos_gt_zero_pi) linarith+
  with \<open>0 < sin h\<close> have "sin (- h) - sin p * sin dl < cos p * cos dl"
    by (simp add: cos_diff)
  then show "(sin (- h) - sin p * sin dl) / (cos p * cos dl) < 1"
    using den by (simp add: pos_divide_less_eq)
qed

lemma hour_angle_polar_day:
  fixes p dl h :: real
  assumes p: "\<bar>p\<bar> < pi / 2" and dl: "\<bar>dl\<bar> < pi / 2"
    and big: "pi / 2 - h \<le> \<bar>p + dl\<bar>" and h: "h \<le> pi / 2"
  shows "(sin (- h) - sin p * sin dl) / (cos p * cos dl) \<le> - 1"
proof -
  have cp: "0 < cos p" using p by (intro cos_gt_zero_pi) linarith+
  have cd: "0 < cos dl" using dl by (intro cos_gt_zero_pi) linarith+
  have den: "0 < cos p * cos dl" using cp cd by simp
  have "cos \<bar>p + dl\<bar> \<le> cos (pi / 2 - h)"
    using p dl big h by (intro cos_monotone_0_pi_le) linarith+
  then have "cos (p + dl) \<le> sin h" by (simp add: cos_diff)
  then have "sin (- h) - sin p * sin dl \<le> - (cos p * cos dl)"
    by (simp add: cos_add)
  then show ?thesis using den by (simp add: pos_divide_le_eq)
qed

subsection \<open>More digits of pi\<close>

lemma sin_lower19:
  fixes x :: real
  shows "x - x ^ 3 / 6 + x ^ 5 / 120 - x ^ 7 / 5040 + x ^ 9 / 362880
      - x ^ 11 / 39916800 + x ^ 13 / 6227020800 - x ^ 15 / 1307674368000
      + x ^ 17 / 355687428096000 - \<bar>x\<bar> ^ 19 / 121645100408832000 \<le> sin x"
  using sin_taylor19 [of x] unfolding abs_le_iff by linarith

lemma pi_lt_31415926536: "pi < 3.1415926536"
proof -
  define x :: real where "x = 31415926536 / 40000000000"
  have "7071067811870 / 10000000000000 < x - x ^ 3 / 6 + x ^ 5 / 120 - x ^ 7 / 5040
      + x ^ 9 / 362880 - x ^ 11 / 39916800 + x ^ 13 / 6227020800 - x ^ 15 / 1307674368000
      + x ^ 17 / 355687428096000 - \<bar>x\<bar> ^ 19 / 121645100408832000"
    unfolding x_def by (simp add: power_divide)
  also have "\<dots> \<le> sin x" by (rule sin_lower19)
  finally have l: "7071067811870 / 10000000000000 < sin x" .
  have "(1::real) / 2 < (7071067811870 / 10000000000000) ^ 2" by (simp add: power_divide)
  also from l have "\<dots> < sin x ^ 2" by (intro power_strict_mono) simp_all
  finally have "1 / 2 < sin x ^ 2" .
  moreover have "cos (2 * x) = 1 - 2 * sin x ^ 2" by (rule cos_double_sin)
  ultimately have c: "cos (2 * x) < 0" by simp
  have "pi / 2 < 2 * x"
  proof (rule ccontr)
    assume "\<not> pi / 2 < 2 * x"
    then have "2 * x \<le> pi / 2" by simp
    then have "0 \<le> cos (2 * x)" by (intro cos_ge_zero) (simp_all add: x_def)
    with c show False by simp
  qed
  then show ?thesis by (simp add: x_def)
qed

subsection \<open>Conversion to radians\<close>

lemma np_deg2rad_zero [simp]: "np_deg2rad 0 = 0"
  by (simp add: np_deg2rad_def f64_def)

lemma np_deg2rad_minus: "np_deg2rad (- x) = - np_deg2rad x"
  by (simp add: np_deg2rad_def f64_minus)

lemma np_deg2rad_mono: "x \<le> y \<Longrightarrow> np_deg2rad x \<le> np_deg2rad y"
  unfolding np_deg2rad_def by (intro f64_mono mult_right_mono) (simp_all add: deg2rad_factor_def)

lemma np_deg2rad_abs_le:
  assumes "\<bar>x\<bar> \<le> b"
  shows "\<bar>np_deg2rad x\<bar> \<le> np_deg2rad b"
proof -
  from assms have "- b \<le> x" "x \<le> b" by simp_all
  from np_deg2rad_mono [OF this(1)] np_deg2rad_mono [OF this(2)]
  show ?thesis by (simp add: np_deg2rad_minus abs_le_iff)
qed

lemma np_deg2rad_horizon:
  "np_deg2rad (- 0.833) = - (4190464033734891 / 288230376151711744)"
proof -
  have "f64 (0.833 * deg2rad_factor)
      = 2 powi (- 7 - 52) * of_int (rint (0.833 * deg2rad_factor / 2 powi (- 7 - 52)))"
    by (rule f64_binade) (simp_all add: deg2rad_factor_def power_int_minus_divide)
  also have "\<dots> = 4190464033734891 / 288230376151711744"
    by (simp add: deg2rad_factor_def power_int_minus_divide rint_def Let_def)
  finally show ?thesis using np_deg2rad_minus [of "0.833"] by (simp add: np_deg2rad_def)
qed




subsection \<open>calculate_daylight\<close>

lemma np_divide_finite: "b \<noteq> 0 \<Longrightarrow> np_divide a b = Fin (a / b)"
  by (simp add: np_divide_def)

lemma classify_finite:
  shows "x \<le> - 1 \<Longrightarrow>
      (if np_le (Fin x) (- 1) then (Fin 24, Polar_Day)
       else if np_ge (Fin x) 1 then (Fin 0, Polar_Night)
       else (np_scale (\<lambda>x. x / 15) (np_scale (\<lambda>x. 2 * x) (np_scale np_rad2deg (np_arccos (Fin x)))),
             Normal_Day)) = (Fin 24, Polar_Day)"
    and "- 1 < x \<Longrightarrow> 1 \<le> x \<Longrightarrow>
      (if np_le (Fin x) (- 1) then (Fin 24, Polar_Day)
       else if np_ge (Fin x) 1 then (Fin 0, Polar_Night)
       else (np_scale (\<lambda>x. x / 15) (np_scale (\<lambda>x. 2 * x) (np_scale np_rad2deg (np_arccos (Fin x)))),
             Normal_Day)) = (Fin 0, Polar_Night)"
    and "- 1 < x \<Longrightarrow> x < 1 \<Longrightarrow>
      (if np_le (Fin x) (- 1) then (Fin 24, Polar_Day)
       else if np_ge (Fin x) 1 then (Fin 0, Polar_Night)
       else (np_scale (\<lambda>x. x / 15) (np_scale (\<lambda>x. 2 * x) (np_scale np_rad2deg (np_arccos (Fin x)))),
             Normal_Day)) = (Fin (2 * (arccos x * (180 / pi)) / 15), Normal_Day)"
  by (simp_all add: np_rad2deg_def)

lemma calculate_daylight_at:
  assumes p: "np_deg2rad lat_deg = p" and dl: "solar_declination_rad d = dl"
    and den: "cos p * cos dl \<noteq> 0"
    and x: "x = (sin (- (4190464033734891 / 288230376151711744)) - sin p * sin dl) / (cos p * cos dl)"
  shows "x \<le> - 1 \<Longrightarrow> calculate_daylight lat_deg d = (Fin 24, Polar_Day)"
    and "- 1 < x \<Longrightarrow> 1 \<le> x \<Longrightarrow> calculate_daylight lat_deg d = (Fin 0, Polar_Night)"
    and "- 1 < x \<Longrightarrow> x < 1 \<Longrightarrow>
      calculate_daylight lat_deg d = (Fin (2 * (arccos x * (180 / pi)) / 15), Normal_Day)"
proof -
  have q: "np_divide (sin (- (4190464033734891 / 288230376151711744)) - sin p * sin dl)
      (cos p * cos dl) = Fin x"
    unfolding x by (rule np_divide_finite [OF den])
  have c: "calculate_daylight lat_deg d =
      (if np_le (Fin x) (- 1) then (Fin 24, Polar_Day)
       else if np_ge (Fin x) 1 then (Fin 0, Polar_Night)
       else (np_scale (\<lambda>x. x / 15) (np_scale (\<lambda>x. 2 * x) (np_scale np_rad2deg (np_arccos (Fin x)))),
             Normal_Day))"
    unfolding calculate_daylight_def Let_def p dl np_deg2rad_horizon q by simp
  show "x \<le> - 1 \<Longrightarrow> calculate_daylight lat_deg d = (Fin 24, Polar_Day)"
    unfolding c by (rule classify_finite(1))
  show "- 1 < x \<Longrightarrow> 1 \<le> x \<Longrightarrow> calculate_daylight lat_deg d = (Fin 0, Polar_Night)"
    unfolding c by (rule classify_finite(2))
  show "- 1 < x \<Longrightarrow> x < 1 \<Longrightarrow>
      calculate_daylight lat_deg d = (Fin (2 * (arccos x * (180 / pi)) / 15), Normal_Day)"
    unfolding c by (rule classify_finite(3))
qed



subsection \<open>Latitudes with a normal day all year\<close>

lemma solar_declination_tight: "\<bar>solar_declination_rad d\<bar> \<le> 0.422858"
  unfolding solar_declination_rad_def Let_def by (rule declination_tight_bound)

lemma normal_duration_bounds:
  assumes "- 1 < x" "x < 1"
  shows "0 < 2 * (arccos x * (180 / pi)) / 15" and "2 * (arccos x * (180 / pi)) / 15 < 24"
proof -
  from arccos_lt_bounded [OF assms] have a: "0 < arccos x" "arccos x < pi" by simp_all
  from a(1) show "0 < 2 * (arccos x * (180 / pi)) / 15" by simp
  have "2 * (arccos x * (180 / pi)) / 15 = 24 * (arccos x / pi)" by simp
  also have "\<dots> < 24 * 1" using a(2) by (intro mult_strict_left_mono) simp_all
  finally show "2 * (arccos x * (180 / pi)) / 15 < 24" by simp
qed

lemma calculate_daylight_normal:
  assumes "\<bar>np_deg2rad lat_deg\<bar> + \<bar>solar_declination_rad d\<bar>
    < pi / 2 - 4190464033734891 / 288230376151711744"
  shows "snd (calculate_daylight lat_deg d) = Normal_Day"
    and "strictly_between 0 24 (fst (calculate_daylight lat_deg d))"
proof -
  define x where "x = (sin (- (4190464033734891 / 288230376151711744))
      - sin (np_deg2rad lat_deg) * sin (solar_declination_rad d))
      / (cos (np_deg2rad lat_deg) * cos (solar_declination_rad d))"
  have h: "(0::real) < 4190464033734891 / 288230376151711744" by simp
  note n = hour_angle_normal [OF assms h]
  from n(2,3) have x: "- 1 < x" "x < 1" by (simp_all only: x_def)
  from n(1) have den: "cos (np_deg2rad lat_deg) * cos (solar_declination_rad d) \<noteq> 0"
    by (rule dual_order.strict_implies_not_eq)
  from calculate_daylight_at(3) [OF refl refl den x_def x]
  have eq: "calculate_daylight lat_deg d = (Fin (2 * (arccos x * (180 / pi)) / 15), Normal_Day)" .
  show "snd (calculate_daylight lat_deg d) = Normal_Day" by (simp only: eq snd_conv)
  from normal_duration_bounds [OF x]
  show "strictly_between 0 24 (fst (calculate_daylight lat_deg d))"
    by (simp only: eq fst_conv strictly_between_def npfloat.case simp_thms)
qed

lemma np_deg2rad_64_9: "np_deg2rad 64.9 = 5101311445629397 / 4503599627370496"
proof -
  have "f64 (64.9 * deg2rad_factor)
      = 2 powi (0 - 52) * of_int (rint (64.9 * deg2rad_factor / 2 powi (0 - 52)))"
    by (rule f64_binade) (simp_all add: deg2rad_factor_def)
  also have "\<dots> = 5101311445629397 / 4503599627370496"
    by (simp add: deg2rad_factor_def rint_def Let_def)
  finally show ?thesis by (simp only: np_deg2rad_def)
qed

lemma np_deg2rad_66_4: "np_deg2rad (- 66.4) = - (5219215408163205 / 4503599627370496)"
proof -
  have "f64 (66.4 * deg2rad_factor)
      = 2 powi (0 - 52) * of_int (rint (66.4 * deg2rad_factor / 2 powi (0 - 52)))"
    by (rule f64_binade) (simp_all add: deg2rad_factor_def)
  also have "\<dots> = 5219215408163205 / 4503599627370496"
    by (simp add: deg2rad_factor_def rint_def Let_def)
  finally show ?thesis using np_deg2rad_minus [of "66.4"] by (simp add: np_deg2rad_def)
qed

lemma pi_half_lower: "884279719003555 / 562949953421312 < pi / 2"
  using np_pi_lt_pi by simp

lemma normal_below_649:
  assumes "\<bar>lat_deg\<bar> \<le> 64.9"
  shows "\<bar>np_deg2rad lat_deg\<bar> + \<bar>solar_declination_rad d\<bar>
    < pi / 2 - 4190464033734891 / 288230376151711744"
proof -
  have a: "\<bar>np_deg2rad lat_deg\<bar> \<le> 5101311445629397 / 4503599627370496"
    using np_deg2rad_abs_le [OF assms] by (simp only: np_deg2rad_64_9)
  have "(5101311445629397 / 4503599627370496 + 0.422858
      + 4190464033734891 / 288230376151711744 :: real) < 884279719003555 / 562949953421312"
    by simp
  with pi_half_lower a solar_declination_tight [of d] show ?thesis by linarith
qed

lemma jan1_valid: "valid_date \<lparr>year = 2023, month = 1, day = 1\<rparr>"
  by (simp add: valid_date_def days_in_month_simps)

lemma jan1_declination:
  "solar_declination_rad \<lparr>year = 2023, month = 1, day = 1\<rparr> = - 0.402449"
proof -
  have "day_of_year \<lparr>year = 2023, month = 1, day = 1\<rparr> = 1"
    by (simp add: day_of_year_valid [OF jan1_valid] yday_def days_before_month_simps)
  then show ?thesis
    by (simp add: solar_declination_rad_def declination_of_doy_series)
qed

text \<open>
  Claim C7, as the code has it.  For every latitude of absolute value at most 64.9 degrees
  and every date, calculate_daylight returns Normal Day with a duration strictly between 0
  and 24 hours.
\<close>

theorem normal_day_up_to_64_9:
  assumes "\<bar>lat_deg\<bar> \<le> 64.9"
  shows "snd (calculate_daylight lat_deg d) = Normal_Day
    \<and> strictly_between 0 24 (fst (calculate_daylight lat_deg d))"
  using calculate_daylight_normal [OF normal_below_649 [OF assms]] by (rule conjI)

text \<open>The theorem at latitude 40 on 2024-06-21.\<close>

theorem normal_day_up_to_64_9_witness:
  "\<bar>40::real\<bar> \<le> 64.9
   \<and> snd (calculate_daylight 40 \<lparr>year = 2024, month = 6, day = 21\<rparr>) = Normal_Day
   \<and> strictly_between 0 24 (fst (calculate_daylight 40 \<lparr>year = 2024, month = 6, day = 21\<rparr>))"
proof -
  have h: "\<bar>40::real\<bar> \<le> 64.9" by simp
  from h normal_day_up_to_64_9 [OF h] show ?thesis by (rule conjI)
qed

lemma south_664_jan1:
  "calculate_daylight (- 66.4) \<lparr>year = 2023, month = 1, day = 1\<rparr> = (Fin 24, Polar_Day)"
proof -
  define p :: real where "p = - (5219215408163205 / 4503599627370496)"
  define dl :: real where "dl = - 0.402449"
  define h :: real where "h = 4190464033734891 / 288230376151711744"
  have lo: "(1.57::real) < pi / 2" using pi_gt_314 by simp
  have hi: "pi / 2 < (1.5708::real)" using pi_lt_31415926536 by simp
  have p: "\<bar>p\<bar> < pi / 2" using lo by (simp add: p_def)
  have dl: "\<bar>dl\<bar> < pi / 2" using lo by (simp add: dl_def)
  have q: "p + dl = - (5219215408163205 / 4503599627370496 + 0.402449)" by (simp add: p_def dl_def)
  have "(0::real) \<le> 5219215408163205 / 4503599627370496 + 0.402449" by simp
  then have s: "\<bar>p + dl\<bar> = 5219215408163205 / 4503599627370496 + 0.402449"
    unfolding q abs_minus_cancel by (rule abs_of_nonneg)
  have "(1.5708::real) - h \<le> 5219215408163205 / 4503599627370496 + 0.402449"
    by (simp add: h_def)
  with hi have big: "pi / 2 - h \<le> \<bar>p + dl\<bar>" unfolding s by linarith
  have hh: "h \<le> pi / 2" using lo by (simp add: h_def)
  have cp: "0 < cos p" using p by (intro cos_gt_zero_pi) linarith+
  have cd: "0 < cos dl" using dl by (intro cos_gt_zero_pi) linarith+
  have "0 < cos p * cos dl" using cp cd by simp
  then have den: "cos p * cos dl \<noteq> 0" by (rule dual_order.strict_implies_not_eq)
  define x where "x = (sin (- h) - sin p * sin dl) / (cos p * cos dl)"
  have x: "x \<le> - 1" unfolding x_def by (rule hour_angle_polar_day [OF p dl big hh])
  have pp: "np_deg2rad (- 66.4) = p" by (simp only: np_deg2rad_66_4 p_def)
  have dd: "solar_declination_rad \<lparr>year = 2023, month = 1, day = 1\<rparr> = dl"
    by (simp only: jan1_declination dl_def)
  from calculate_daylight_at(1) [OF pp dd den x_def [unfolded h_def] x] show ?thesis .
qed

text \<open>
  Claim C7 says that every latitude of absolute value below 66.5 degrees has a Normal Day on
  every date.  The correction of -0.833 degrees moves the limit below 66.5: at latitude -66.4
  on 2023-01-01 the result is a Polar Day of 24 hours.
\<close>

theorem polar_circle_counterexample:
  "\<bar>- 66.4::real\<bar> < 66.5 \<and> valid_date \<lparr>year = 2023, month = 1, day = 1\<rparr>
   \<and> calculate_daylight (- 66.4) \<lparr>year = 2023, month = 1, day = 1\<rparr> = (Fin 24, Polar_Day)"
  using south_664_jan1 jan1_valid by simp

subsection \<open>The equator\<close>

lemma cos_lower2:
  fixes x :: real
  shows "1 - x\<^sup>2 / 2 \<le> cos x"
proof -
  have "\<bar>sin (x / 2)\<bar> \<le> \<bar>x / 2\<bar>" by (rule abs_sin_x_le_abs_x)
  then have "(sin (x / 2))\<^sup>2 \<le> (x / 2)\<^sup>2" by (simp only: abs_le_square_iff)
  then have "(sin (x / 2))\<^sup>2 \<le> x\<^sup>2 / 4" by (simp add: power_divide)
  moreover have "cos (2 * (x / 2)) = 1 - 2 * (sin (x / 2))\<^sup>2" by (rule cos_double_sin)
  ultimately show ?thesis by simp
qed

lemma cos_declination_gt: "0.91 < cos (solar_declination_rad d)"
proof -
  have "\<bar>solar_declination_rad d\<bar> \<le> \<bar>0.422858\<bar>" using solar_declination_tight [of d] by simp
  then have "(solar_declination_rad d)\<^sup>2 \<le> 0.422858\<^sup>2" by (simp only: abs_le_square_iff)
  also have "\<dots> < (0.18::real)" by (simp add: power_divide)
  finally have "(solar_declination_rad d)\<^sup>2 < 0.18" .
  with cos_lower2 [of "solar_declination_rad d"] show ?thesis by simp
qed

lemma sin_horizon_upper: "sin (4190464033734891 / 288230376151711744) < (0.01458::real)"
proof -
  have "sin (4190464033734891 / 288230376151711744)
      \<le> (4190464033734891 / 288230376151711744 :: real)" by (intro sin_x_le_x) simp
  also have "\<dots> < (0.01458::real)" by simp
  finally show ?thesis .
qed

lemma sin_13_lower: "(0.01699::real) < sin (0.13 * pi / 24)"
proof -
  have "(0.01699::real) < 0.017 - 0.017 ^ 3 / 6 + 0.017 ^ 5 / 120 - \<bar>0.017\<bar> ^ 7 / 5040"
    by (simp add: power_divide)
  also have "\<dots> \<le> sin (0.017::real)" by (rule sin_lower7)
  also have "\<dots> < sin (0.13 * pi / 24)"
  proof (rule sin_monotone_2pi)
    show "- (pi / 2) \<le> (0.017::real)" by (rule order_trans [of _ 0]) simp_all
    have "(0.017::real) < 3.14 * (0.13 / 24)" by simp
    also have "\<dots> < pi * (0.13 / 24)"
      using pi_gt_314 by (intro mult_strict_right_mono) simp_all
    finally show "0.017 < 0.13 * pi / 24" by simp
    show "0.13 * pi / 24 \<le> pi / 2" by simp
  qed
  finally show ?thesis .
qed

lemma sin_11_upper: "sin (0.11 * pi / 24) < sin (4190464033734891 / 288230376151711744)"
proof (rule sin_monotone_2pi)
  show "- (pi / 2) \<le> 0.11 * pi / 24" by (rule order_trans [of _ 0]) simp_all
  have "pi * (0.11 / 24) < 3.15 * (0.11 / 24)"
    using pi_lt_315 by (intro mult_strict_right_mono) simp_all
  also have "\<dots> < (4190464033734891 / 288230376151711744 :: real)" by simp
  finally show "0.11 * pi / 24 < 4190464033734891 / 288230376151711744" by simp
  have "(4190464033734891 / 288230376151711744 :: real) \<le> 1" by simp
  also have "(1::real) \<le> pi / 2" using pi_ge_two by simp
  finally show "4190464033734891 / 288230376151711744 \<le> pi / 2" .
qed

lemma cos_past_quarter: "cos (pi / 2 + u) = - sin u"
  by (simp add: cos_add)

lemma equator_quotient:
  fixes sh cd :: real
  assumes cd: "0.91 < cd" "cd \<le> 1"
    and sh: "s11 < sh" "sh < 0.01458" and s11: "0 \<le> s11" and s13: "0.01699 < s13"
  shows "- s13 < - sh / cd" and "- sh / cd < - s11"
proof -
  have pos: "0 < cd" using cd by simp
  have "0.01458 < 0.01699 * (0.91::real)" by simp
  also have "\<dots> < s13 * cd" using s13 cd by (intro mult_strict_mono) simp_all
  finally have "sh < s13 * cd" using sh by simp
  then have "sh / cd < s13" using pos by (simp add: pos_divide_less_eq)
  then show "- s13 < - sh / cd" by simp
  have "s11 * cd \<le> s11 * 1" using s11 cd by (intro mult_left_mono) simp_all
  with sh have "s11 * cd < sh" by simp
  then have "s11 < sh / cd" using pos by (simp add: pos_less_divide_eq)
  then show "- sh / cd < - s11" by simp
qed

lemma equator_daylight:
  "snd (calculate_daylight 0 d) = Normal_Day"
  "strictly_between 12.11 12.13 (fst (calculate_daylight 0 d))"
proof -
  define cd where "cd = cos (solar_declination_rad d)"
  define sh :: real where "sh = sin (4190464033734891 / 288230376151711744)"
  define x where "x = - sh / cd"
  have cd: "0.91 < cd" "cd \<le> 1"
    unfolding cd_def by (rule cos_declination_gt, rule cos_le_one)
  have s11: "0 \<le> sin (0.11 * pi / 24)" by (intro sin_ge_zero) simp_all
  have q: "- sin (0.13 * pi / 24) < x" "x < - sin (0.11 * pi / 24)"
    unfolding x_def
    using equator_quotient [OF cd _ _ s11 sin_13_lower, of sh] sin_11_upper sin_horizon_upper
    by (simp_all only: sh_def)
  have c1: "cos (12.11 * pi / 24) = - sin (0.11 * pi / 24)"
    using cos_past_quarter [of "0.11 * pi / 24"] by simp
  have c2: "cos (12.13 * pi / 24) = - sin (0.13 * pi / 24)"
    using cos_past_quarter [of "0.13 * pi / 24"] by simp
  have "- 1 \<le> cos (12.13 * pi / 24)" by simp
  with q c2 have lo: "- 1 < x" by linarith
  have "cos (12.11 * pi / 24) \<le> 1" by simp
  with q c1 have hi: "x < 1" by linarith
  have xy: "x < cos (12.11 * pi / 24)" using q(2) by (simp only: c1)
  have "arccos (cos (12.11 * pi / 24)) < arccos x"
    by (rule arccos_less_arccos [OF less_imp_le [OF lo] xy cos_le_one])
  moreover have "arccos (cos (12.11 * pi / 24)) = 12.11 * pi / 24"
    by (intro arccos_cos) simp_all
  ultimately have a1: "12.11 * pi / 24 < arccos x" by simp
  have yx: "cos (12.13 * pi / 24) < x" using q(1) by (simp only: c2)
  have "arccos x < arccos (cos (12.13 * pi / 24))"
    by (rule arccos_less_arccos [OF cos_ge_minus_one yx less_imp_le [OF hi]])
  moreover have "arccos (cos (12.13 * pi / 24)) = 12.13 * pi / 24"
    by (intro arccos_cos) simp_all
  ultimately have a2: "arccos x < 12.13 * pi / 24" by simp
  define D where "D = 2 * (arccos x * (180 / pi)) / 15"
  have D: "D = arccos x * (24 / pi)" by (simp add: D_def)
  have "12.11 * pi / 24 * (24 / pi) < arccos x * (24 / pi)"
    using a1 by (intro mult_strict_right_mono) simp_all
  then have d1: "12.11 < D" unfolding D by simp
  have "arccos x * (24 / pi) < 12.13 * pi / 24 * (24 / pi)"
    using a2 by (intro mult_strict_right_mono) simp_all
  then have d2: "D < 12.13" unfolding D by simp
  have den: "cos 0 * cos (solar_declination_rad d) \<noteq> 0" using cd by (simp add: cd_def)
  have xx: "x = (sin (- (4190464033734891 / 288230376151711744))
      - sin 0 * sin (solar_declination_rad d)) / (cos 0 * cos (solar_declination_rad d))"
    by (simp add: x_def sh_def cd_def)
  from calculate_daylight_at(3) [OF np_deg2rad_zero refl den xx lo hi]
  have eq: "calculate_daylight 0 d = (Fin D, Normal_Day)" by (simp only: D_def)
  show "snd (calculate_daylight 0 d) = Normal_Day" by (simp only: eq snd_conv)
  from d1 d2 show "strictly_between 12.11 12.13 (fst (calculate_daylight 0 d))"
    by (simp only: eq fst_conv strictly_between_def npfloat.case simp_thms)
qed

text \<open>
  Claim C8 says that at the equator the duration is within about 0.02 hours of 12.  On
  2023-01-01 it is between 12.11 and 12.13 hours, more than 0.1 hours away from 12.
\<close>

theorem equator_counterexample:
  "valid_date \<lparr>year = 2023, month = 1, day = 1\<rparr>
   \<and> snd (calculate_daylight 0 \<lparr>year = 2023, month = 1, day = 1\<rparr>) = Normal_Day
   \<and> strictly_between 12.11 12.13 (fst (calculate_daylight 0 \<lparr>year = 2023, month = 1, day = 1\<rparr>))
   \<and> \<not> within_of 0.1 12 (fst (calculate_daylight 0 \<lparr>year = 2023, month = 1, day = 1\<rparr>))"
proof -
  note e = equator_daylight [of "\<lparr>year = 2023, month = 1, day = 1\<rparr>"]
  from e(2) have "\<not> within_of 0.1 12 (fst (calculate_daylight 0 \<lparr>year = 2023, month = 1, day = 1\<rparr>))"
    by (auto simp add: strictly_between_def within_of_def split: npfloat.splits)
  with e jan1_valid show ?thesis by (intro conjI)
qed

text \<open>
  Claim C8, as the code has it.  At latitude 0, on every date, calculate_daylight returns
  Normal Day with a duration strictly between 12.11 and 12.13 hours.
\<close>

theorem equator_duration:
  "snd (calculate_daylight 0 d) = Normal_Day
   \<and> strictly_between 12.11 12.13 (fst (calculate_daylight 0 d))"
  using equator_daylight [of d] by (rule conjI)

subsection \<open>Latitudes at and beyond the poles\<close>

text \<open>
  At 90 degrees and at 270 degrees the binary64 latitude in radians is just below
  \<open>pi / 2\<close> and \<open>3 * pi / 2\<close>, so its cosine is a small positive or negative number and
  not zero.  On 2023-01-01 the program returns a Polar Night at 90 and at 270 degrees and a
  Polar Day at -270 degrees, and so does the embedding.
\<close>

lemma np_deg2rad_90: "np_deg2rad 90 = 884279719003555 / 562949953421312"
proof -
  have "f64 (90 * deg2rad_factor)
      = 2 powi (0 - 52) * of_int (rint (90 * deg2rad_factor / 2 powi (0 - 52)))"
    by (rule f64_binade) (simp_all add: deg2rad_factor_def)
  also have "\<dots> = 884279719003555 / 562949953421312"
    by (simp add: deg2rad_factor_def rint_def Let_def)
  finally show ?thesis by (simp only: np_deg2rad_def)
qed

lemma np_deg2rad_270: "np_deg2rad 270 = 2652839157010665 / 562949953421312"
proof -
  have "f64 (270 * deg2rad_factor)
      = 2 powi (2 - 52) * of_int (rint (270 * deg2rad_factor / 2 powi (2 - 52)))"
    by (rule f64_binade) (simp_all add: deg2rad_factor_def)
  also have "\<dots> = 2652839157010665 / 562949953421312"
    by (simp add: deg2rad_factor_def power_int_minus_divide rint_def Let_def)
  finally show ?thesis by (simp only: np_deg2rad_def)
qed

lemma np_deg2rad_minus_270: "np_deg2rad (- 270) = - (2652839157010665 / 562949953421312)"
  using np_deg2rad_minus [of 270] by (simp only: np_deg2rad_270)

lemma quotient_neg_den:
  fixes num den :: real
  assumes "den < 0"
  shows "num \<le> den \<Longrightarrow> 1 \<le> num / den" and "- den \<le> num \<Longrightarrow> num / den \<le> - 1"
  using assms by (simp_all add: neg_le_divide_eq neg_divide_le_eq)

lemma cos_three_quarter:
  fixes p :: real
  assumes "pi / 2 < p" and "p < 3 * pi / 2"
  shows "cos p < 0"
proof -
  have "0 < cos (p - pi)" using assms by (intro cos_gt_zero_pi) linarith+
  then show ?thesis by (simp add: cos_diff)
qed

lemma sin_horizon_pos: "0 < sin (4190464033734891 / 288230376151711744 :: real)"
proof (rule sin_gt_zero)
  show "(0::real) < 4190464033734891 / 288230376151711744" by simp
  have "(4190464033734891 / 288230376151711744 :: real) < 3.14" by simp
  with pi_gt_314 show "4190464033734891 / 288230376151711744 < pi" by linarith
qed

lemma north_pole_jan1:
  "calculate_daylight 90 \<lparr>year = 2023, month = 1, day = 1\<rparr> = (Fin 0, Polar_Night)"
proof -
  define p :: real where "p = 884279719003555 / 562949953421312"
  define dl :: real where "dl = - 0.402449"
  define h :: real where "h = 4190464033734891 / 288230376151711744"
  have lo: "(3.14::real) < pi" by (rule pi_gt_314)
  have hi: "pi / 2 < (1.5707963268::real)" using pi_lt_31415926536 by simp
  have p: "\<bar>p\<bar> < pi / 2" using pi_half_lower by (simp add: p_def)
  have cp: "0 < cos p" using p by (intro cos_gt_zero_pi) linarith+
  have cd: "0 < cos dl" using lo by (intro cos_gt_zero_pi) (simp_all add: dl_def)
  have den: "0 < cos p * cos dl" using cp cd by simp
  then have den0: "cos p * cos dl \<noteq> 0" by (rule dual_order.strict_implies_not_eq)
  have a: "0 \<le> pi / 2 + h" using lo by (simp add: h_def)
  have "(1.5707963268::real) + h \<le> p - dl" by (simp add: p_def dl_def h_def)
  with hi have b: "pi / 2 + h \<le> p - dl" by linarith
  have "p - dl \<le> (3.14::real)" by (simp add: p_def dl_def)
  with lo have c: "p - dl \<le> pi" by linarith
  have "cos (p - dl) \<le> cos (pi / 2 + h)" by (rule cos_monotone_0_pi_le [OF a b c])
  then have "cos (p - dl) \<le> - sin h" by (simp add: cos_add)
  then have "cos p * cos dl \<le> sin (- h) - sin p * sin dl" by (simp add: cos_diff)
  define x where "x = (sin (- h) - sin p * sin dl) / (cos p * cos dl)"
  have x: "1 \<le> x" unfolding x_def
    using \<open>cos p * cos dl \<le> sin (- h) - sin p * sin dl\<close> den by (simp add: pos_le_divide_eq)
  then have x': "- 1 < x" by linarith
  have pp: "np_deg2rad 90 = p" by (simp only: np_deg2rad_90 p_def)
  have dd: "solar_declination_rad \<lparr>year = 2023, month = 1, day = 1\<rparr> = dl"
    by (simp only: jan1_declination dl_def)
  from calculate_daylight_at(2) [OF pp dd den0 x_def [unfolded h_def] x' x] show ?thesis .
qed

lemma past_three_quarter_jan1:
  fixes p dl h :: real
  defines "p \<equiv> 2652839157010665 / 562949953421312"
    and "dl \<equiv> - 0.402449" and "h \<equiv> 4190464033734891 / 288230376151711744"
  shows "cos p * cos dl < 0" and "0.29 < cos (p - dl)" and "sin h < 0.29"
proof -
  have lo: "(3.14::real) < pi" by (rule pi_gt_314)
  have hi: "pi < (3.15::real)" by (rule pi_lt_315)
  have "pi / 2 < 3.15 / 2" using hi by simp
  also have "\<dots> < p" by (simp add: p_def)
  finally have p1: "pi / 2 < p" .
  have "p = 3 * (884279719003555 / 281474976710656) / 2" by (simp add: p_def)
  also have "\<dots> < 3 * pi / 2" using np_pi_lt_pi by simp
  finally have p2: "p < 3 * pi / 2" .
  have cp: "cos p < 0" by (rule cos_three_quarter [OF p1 p2])
  have cd: "0 < cos dl" using lo by (intro cos_gt_zero_pi) (simp_all add: dl_def)
  show "cos p * cos dl < 0" using cp cd by (rule mult_neg_pos)
  define y where "y = 2 * pi - (p - dl)"
  have "(0::real) \<le> 2 * 3.14 - (p - dl)" by (simp add: p_def dl_def)
  with lo have y0: "0 \<le> y" unfolding y_def by linarith
  have "2 * 3.15 - (p - dl) \<le> (1.19::real)" by (simp add: p_def dl_def)
  with hi have y1: "y \<le> 1.19" unfolding y_def by linarith
  have "\<bar>y\<bar> \<le> \<bar>1.19\<bar>" using y0 y1 by simp
  then have "y\<^sup>2 \<le> 1.19\<^sup>2" by (simp only: abs_le_square_iff)
  also have "\<dots> < (1.42::real)" by (simp add: power_divide)
  finally have "0.29 < 1 - y\<^sup>2 / 2" by simp
  also have "\<dots> \<le> cos y" by (rule cos_lower2)
  also have "cos y = cos (p - dl)" unfolding y_def by (simp add: cos_diff [of "2 * pi"])
  finally show "0.29 < cos (p - dl)" .
  have "sin h < 0.01458" unfolding h_def by (rule sin_horizon_upper)
  then show "sin h < 0.29" by simp
qed

lemma lat_270_jan1:
  "calculate_daylight 270 \<lparr>year = 2023, month = 1, day = 1\<rparr> = (Fin 0, Polar_Night)"
proof -
  define p :: real where "p = 2652839157010665 / 562949953421312"
  define dl :: real where "dl = - 0.402449"
  define h :: real where "h = 4190464033734891 / 288230376151711744"
  note f = past_three_quarter_jan1 [folded p_def dl_def h_def]
  have den0: "cos p * cos dl \<noteq> 0" using f(1) by (rule less_imp_neq)
  have "0 < sin h" unfolding h_def by (rule sin_horizon_pos)
  moreover have "(0::real) < 0.29" by simp
  then have "0 < cos (p - dl)" using f(2) by (rule less_trans)
  ultimately have "- sin h \<le> cos (p - dl)" by linarith
  then have le: "sin (- h) - sin p * sin dl \<le> cos p * cos dl" by (simp add: cos_diff)
  define x where "x = (sin (- h) - sin p * sin dl) / (cos p * cos dl)"
  have x: "1 \<le> x" unfolding x_def by (rule quotient_neg_den(1) [OF f(1) le])
  then have x': "- 1 < x" by linarith
  have pp: "np_deg2rad 270 = p" by (simp only: np_deg2rad_270 p_def)
  have dd: "solar_declination_rad \<lparr>year = 2023, month = 1, day = 1\<rparr> = dl"
    by (simp only: jan1_declination dl_def)
  from calculate_daylight_at(2) [OF pp dd den0 x_def [unfolded h_def] x' x] show ?thesis .
qed

lemma lat_minus_270_jan1:
  "calculate_daylight (- 270) \<lparr>year = 2023, month = 1, day = 1\<rparr> = (Fin 24, Polar_Day)"
proof -
  define p :: real where "p = 2652839157010665 / 562949953421312"
  define dl :: real where "dl = - 0.402449"
  define h :: real where "h = 4190464033734891 / 288230376151711744"
  note f = past_three_quarter_jan1 [folded p_def dl_def h_def]
  have den: "cos (- p) * cos dl < 0" using f(1) by simp
  then have den0: "cos (- p) * cos dl \<noteq> 0" by (rule less_imp_neq)
  have "cos (- p + dl) = cos (p - dl)" using cos_minus [of "p - dl"] by simp
  moreover have "sin h < cos (p - dl)" using f(3) f(2) by (rule less_trans)
  ultimately have "sin h \<le> cos (- p + dl)" by simp
  then have le: "- (cos (- p) * cos dl) \<le> sin (- h) - sin (- p) * sin dl"
    unfolding cos_add by simp
  define x where "x = (sin (- h) - sin (- p) * sin dl) / (cos (- p) * cos dl)"
  have x: "x \<le> - 1" unfolding x_def by (rule quotient_neg_den(2) [OF den le])
  have pp: "np_deg2rad (- 270) = - p" by (simp only: np_deg2rad_minus_270 p_def)
  have dd: "solar_declination_rad \<lparr>year = 2023, month = 1, day = 1\<rparr> = dl"
    by (simp only: jan1_declination dl_def)
  from calculate_daylight_at(1) [OF pp dd den0 x_def [unfolded h_def] x] show ?thesis .
qed

subsection \<open>The table generator\<close>




























subsection \<open>fmt_hours\<close>


lemma py_trunc_np_round [simp]: "py_trunc (np_round x) = rint x"
  by (simp add: py_trunc_def np_round_def)






lemma f64_half [simp]: "f64 (1 / 2) = 1 / 2"
  using f64_binade [of "- 1" "1 / 2"] by (simp add: power_int_minus_divide)

lemma f64_30 [simp]: "f64 30 = 30"
  using f64_binade [of 4 30] by simp









end
